theory Spec2Isabelle
  imports Main "HOL-Library.Code_Target_Numeral"
begin

section \<open>The rolling weekly ping record (ioos\_catalog/models/ping\_latest.py)\<close>

subsection \<open>Timestamps\<close>

text \<open>
  A naive Python \<^verbatim>\<open>datetime\<close> is a point on a microsecond timeline that starts at
  \<^verbatim>\<open>datetime.min\<close> = 0001-01-01 00:00:00, a Monday, and ends at
  \<^verbatim>\<open>datetime.max\<close> = 9999-12-31 23:59:59.999999. The model keeps the number of
  microseconds since \<^verbatim>\<open>datetime.min\<close>. The source only compares timestamps, adds
  \<^verbatim>\<open>timedelta(hours=1)\<close> and reads \<^verbatim>\<open>weekday()\<close> and \<^verbatim>\<open>hour\<close>; all of these are
  functions of that number.
\<close>

type_synonym datetime = nat

definition hour_us :: nat where
  "hour_us = 3600000000"

definition day_us :: nat where
  "day_us = 24 * hour_us"

text \<open>\<^verbatim>\<open>date.max.toordinal()\<close> is 3652059, so the last microsecond is this one.\<close>

definition datetime_max :: datetime where
  "datetime_max = 3652059 * day_us - 1"

definition weekday :: "datetime \<Rightarrow> nat" where
  "weekday dt = (dt div day_us) mod 7"

definition hour :: "datetime \<Rightarrow> nat" where
  "hour dt = (dt div hour_us) mod 24"

subsection \<open>Exceptions and results\<close>

text \<open>
  The exception classes named by the \<^verbatim>\<open>except\<close> clause of \<^verbatim>\<open>ping_service\<close>, and
  \<open>OtherException\<close> for an exception of any class the clause does not name.
\<close>

datatype probe_exception = ConnectionError | HTTPError | Timeout | OtherException

datatype py_error =
    AssertionError
  | OverflowError
  | IndexError
  | TypeError
  | ProbeRaised probe_exception

datatype 'a outcome = Return 'a | Raise py_error

text \<open>
  \<^verbatim>\<open>start_dt += timedelta(hours=1)\<close>: Python raises \<^verbatim>\<open>OverflowError\<close> when the sum
  lies beyond \<^verbatim>\<open>datetime.max\<close>.
\<close>

definition add_hour :: "datetime \<Rightarrow> datetime outcome" where
  "add_hour dt =
     (if dt + hour_us \<le> datetime_max then Return (dt + hour_us) else Raise OverflowError)"

text \<open>
  \<^verbatim>\<open>xs[idx] = v\<close> on a Python list: \<^verbatim>\<open>TypeError\<close> for the index \<^verbatim>\<open>None\<close>,
  \<^verbatim>\<open>IndexError\<close> out of range (the indices of this program are never negative).
\<close>

definition list_setitem :: "'a list \<Rightarrow> nat option \<Rightarrow> 'a \<Rightarrow> 'a list outcome" where
  "list_setitem xs idx v =
     (case idx of
        None \<Rightarrow> Raise TypeError
      | Some i \<Rightarrow> if i < length xs then Return (xs[i := v]) else Raise IndexError)"

text \<open>\<^verbatim>\<open>xs[a:b]\<close> for non-negative bounds; a slice never raises.\<close>

definition py_slice :: "'a list \<Rightarrow> nat \<Rightarrow> nat \<Rightarrow> 'a list" where
  "py_slice xs a b = drop a (take b xs)"

subsection \<open>The document\<close>

record ping_latest =
  service_id :: nat
  last_response_time :: "int option"
  last_response_code :: "int option"
  last_operational_status :: "bool option"
  last_good_time :: "datetime option"
  response_times :: "int option list"
  response_codes :: "int option list"
  operational_statuses :: "bool option list"
  created :: datetime
  updated :: "datetime option"

text \<open>
  \<^verbatim>\<open>default_values\<close> and \<^verbatim>\<open>get_for_service\<close> when no document is stored: a fresh
  document with the three arrays \<^verbatim>\<open>[None] * (24*7)\<close>, every other field unset.
\<close>

definition new_ping_latest :: "nat \<Rightarrow> datetime \<Rightarrow> ping_latest" where
  "new_ping_latest sid now =
     \<lparr> service_id = sid,
       last_response_time = None,
       last_response_code = None,
       last_operational_status = None,
       last_good_time = None,
       response_times = replicate (24 * 7) None,
       response_codes = replicate (24 * 7) None,
       operational_statuses = replicate (24 * 7) None,
       created = now,
       updated = None \<rparr>"

subsection \<open>get\_index\<close>

definition get_index :: "datetime option \<Rightarrow> nat option" where
  "get_index dt =
     (case dt of
        None \<Rightarrow> None
      | Some t \<Rightarrow> Some (weekday t * 24 + hour t))"

subsection \<open>set\_ping\_data\<close>

text \<open>
  The three assignments to one index that the source makes twice (lines 112--114 with
  \<^verbatim>\<open>None\<close>, lines 128--130 with the sample). The document is mutated in place, so an
  exception in a later assignment leaves the earlier ones done.
\<close>

definition set_slot ::
  "ping_latest \<Rightarrow> nat option \<Rightarrow> int option \<Rightarrow> int option \<Rightarrow> bool option
     \<Rightarrow> ping_latest \<times> unit outcome" where
  "set_slot r idx rt rc os =
     (case list_setitem (response_times r) idx rt of
        Raise e \<Rightarrow> (r, Raise e)
      | Return ts \<Rightarrow>
          let r1 = r\<lparr>response_times := ts\<rparr> in
          (case list_setitem (response_codes r1) idx rc of
             Raise e \<Rightarrow> (r1, Raise e)
           | Return cs \<Rightarrow>
               let r2 = r1\<lparr>response_codes := cs\<rparr> in
               (case list_setitem (operational_statuses r2) idx os of
                  Raise e \<Rightarrow> (r2, Raise e)
                | Return ss \<Rightarrow> (r2\<lparr>operational_statuses := ss\<rparr>, Return ()))))"

text \<open>
  The \<^verbatim>\<open>while start_dt < dt\<close> loop of lines 109--116. The last argument counts how often
  the loop body has been entered; the source keeps no such counter, it is carried only
  so that the number of iterations can be stated.
\<close>

function gap_loop ::
  "ping_latest \<Rightarrow> datetime \<Rightarrow> datetime \<Rightarrow> nat \<Rightarrow> ping_latest \<times> nat \<times> unit outcome" where
  "gap_loop r start_dt dt n =
     (if start_dt < dt then
        (case set_slot r (get_index (Some start_dt)) None None None of
           (r', Raise e) \<Rightarrow> (r', Suc n, Raise e)
         | (r', Return u) \<Rightarrow>
             (case add_hour start_dt of
                Raise e \<Rightarrow> (r', Suc n, Raise e)
              | Return next_dt \<Rightarrow> gap_loop r' next_dt dt (Suc n)))
      else (r, n, Return ()))"
  by pat_completeness auto
termination
proof (relation "measure (\<lambda>(r, start_dt, dt, n). dt - start_dt)")
  show "wf (measure (\<lambda>(r, start_dt, dt, n). dt - start_dt))"
    by simp
next
  fix r :: ping_latest and start_dt dt n :: nat and x r' out u next_dt
  assume "start_dt < dt" and "add_hour start_dt = Return next_dt"
  then show "((r', next_dt, dt, Suc n), (r, start_dt, dt, n))
               \<in> measure (\<lambda>(r, start_dt, dt, n). dt - start_dt)"
    by (auto simp: add_hour_def hour_us_def split: if_splits)
qed

text \<open>
  Lines 118--132: the latest values, then the sample in its slot. \<^verbatim>\<open>return idx\<close>
  returns what \<^verbatim>\<open>get_index\<close> returned.
\<close>

definition record_sample ::
  "ping_latest \<Rightarrow> datetime \<Rightarrow> int option \<Rightarrow> int \<Rightarrow> bool \<Rightarrow> ping_latest \<times> nat option outcome" where
  "record_sample r dt response_time response_code operational_status =
     (let r1 = r\<lparr>updated := Some dt,
                  last_response_time := response_time,
                  last_response_code := Some response_code,
                  last_operational_status := Some operational_status\<rparr>;
          r2 = (if operational_status then r1\<lparr>last_good_time := Some dt\<rparr> else r1);
          idx = get_index (Some dt)
      in case set_slot r2 idx response_time (Some response_code) (Some operational_status) of
           (r3, Raise e) \<Rightarrow> (r3, Raise e)
         | (r3, Return u) \<Rightarrow> (r3, Return idx))"

text \<open>
  \<^verbatim>\<open>set_ping_data\<close> with the iteration count of its loop. The stale branch prints
  \<^verbatim>\<open>"badness"\<close> and returns \<^verbatim>\<open>None\<close>; standard output is not part of the model.
\<close>

definition set_ping_data_run ::
  "ping_latest \<Rightarrow> datetime \<Rightarrow> int option \<Rightarrow> int \<Rightarrow> bool
     \<Rightarrow> ping_latest \<times> nat \<times> nat option outcome" where
  "set_ping_data_run r dt response_time response_code operational_status =
     (case updated r of
        None \<Rightarrow>
          (case record_sample r dt response_time response_code operational_status of
             (r', out) \<Rightarrow> (r', 0, out))
      | Some start_dt \<Rightarrow>
          if start_dt > dt then (r, 0, Return None)
          else
            (case add_hour start_dt of
               Raise e \<Rightarrow> (r, 0, Raise e)
             | Return first_dt \<Rightarrow>
                 (case gap_loop r first_dt dt 0 of
                    (r1, n, Raise e) \<Rightarrow> (r1, n, Raise e)
                  | (r1, n, Return u) \<Rightarrow>
                      (case record_sample r1 dt response_time response_code operational_status of
                         (r', out) \<Rightarrow> (r', n, out)))))"

definition set_ping_data ::
  "ping_latest \<Rightarrow> datetime \<Rightarrow> int option \<Rightarrow> int \<Rightarrow> bool \<Rightarrow> ping_latest \<times> nat option outcome" where
  "set_ping_data r dt response_time response_code operational_status =
     (case set_ping_data_run r dt response_time response_code operational_status of
        (r', n, out) \<Rightarrow> (r', out))"


subsection \<open>ping\_service\<close>

text \<open>
  What \<^verbatim>\<open>s.ping(timeout=15)\<close> does is a parameter: it returns a response time and a
  response code, or it raises.
\<close>

datatype probe_result = Returned int int | Raised probe_exception

text \<open>Lines 80--86: the \<^verbatim>\<open>try\<close> block and its \<^verbatim>\<open>except\<close> clause.\<close>

definition probe_sample :: "probe_result \<Rightarrow> (int option \<times> int \<times> bool) outcome" where
  "probe_sample p =
     (case p of
        Returned response_time response_code \<Rightarrow>
          Return (Some response_time, response_code,
                  (if response_code \<in> set [200, 400] then True else False))
      | Raised e \<Rightarrow>
          if e \<in> set [ConnectionError, HTTPError, Timeout]
          then Return (None, - 1, False)
          else Raise (ProbeRaised e))"

text \<open>
  Python's \<^verbatim>\<open>a and b\<close> on values that are \<^verbatim>\<open>None\<close>, \<^verbatim>\<open>True\<close> or \<^verbatim>\<open>False\<close>: the
  left operand itself when it is falsy, the right operand otherwise.
\<close>

definition truthy :: "bool option \<Rightarrow> bool" where
  "truthy v = (case v of None \<Rightarrow> False | Some b \<Rightarrow> b)"

definition py_and :: "bool option \<Rightarrow> bool option \<Rightarrow> bool option" where
  "py_and a b = (if truthy a then b else a)"

text \<open>
  \<^verbatim>\<open>ping_service\<close>. The parameters are what the environment supplies:
  whether \<^verbatim>\<open>db.Service.find_one\<close> found the service, \<^verbatim>\<open>datetime.utcnow()\<close>, and the
  probe's behaviour.
\<close>

definition ping_service ::
  "ping_latest \<Rightarrow> bool \<Rightarrow> datetime \<Rightarrow> probe_result
     \<Rightarrow> ping_latest \<times> (bool \<times> bool option) outcome" where
  "ping_service r service_found now probe =
     (if \<not> service_found then (r, Raise AssertionError)
      else
        let last = last_operational_status r;
            last_idx = get_index (updated r);
            dt = now
        in case probe_sample probe of
             Raise e \<Rightarrow> (r, Raise e)
           | Return (response_time, response_code, operational_status) \<Rightarrow>
               (case set_ping_data r dt response_time response_code operational_status of
                  (r', Raise e) \<Rightarrow> (r', Raise e)
                | (r', Return idx) \<Rightarrow>
                    (r', Return (last_idx \<noteq> idx,
                                 py_and last (Some (last \<noteq> Some operational_status))))))"

subsection \<open>get\_current\_data\<close>

definition get_current_data ::
  "ping_latest \<Rightarrow> datetime \<Rightarrow> (int option list \<times> bool option list) outcome" where
  "get_current_data r now =
     (case get_index (Some now) of
        None \<Rightarrow> Raise TypeError
      | Some idx \<Rightarrow>
          if idx = 167 then Return (response_times r, operational_statuses r)
          else
            let start_idx = idx + 1 in
            Return (py_slice (response_times r) start_idx 168
                      @ py_slice (response_times r) 0 start_idx,
                    py_slice (operational_statuses r) start_idx 168
                      @ py_slice (operational_statuses r) 0 start_idx))"

subsection \<open>Properties of documents\<close>

text \<open>The three arrays have one entry per hour of the week.\<close>

definition well_formed :: "ping_latest \<Rightarrow> bool" where
  "well_formed r \<longleftrightarrow>
     length (response_times r) = 168 \<and> length (response_codes r) = 168
       \<and> length (operational_statuses r) = 168"

definition triple_ok :: "int option \<Rightarrow> int option \<Rightarrow> bool option \<Rightarrow> bool" where
  "triple_ok t c s \<longleftrightarrow>
     (t = None \<and> c = None \<and> s = None) \<or> (t \<noteq> None \<and> c \<noteq> None \<and> s \<noteq> None)"

definition triple_invariant :: "ping_latest \<Rightarrow> bool" where
  "triple_invariant r \<longleftrightarrow>
     (\<forall>i<168. triple_ok (response_times r ! i) (response_codes r ! i)
                          (operational_statuses r ! i))"

text \<open>
  The part of the triple invariant that a sample without a response time keeps: the code
  and the status are absent together, and a response time is present only with them.
\<close>

definition pair_ok :: "int option \<Rightarrow> int option \<Rightarrow> bool option \<Rightarrow> bool" where
  "pair_ok t c s \<longleftrightarrow> (c = None \<longleftrightarrow> s = None) \<and> (t \<noteq> None \<longrightarrow> c \<noteq> None)"

definition pair_invariant :: "ping_latest \<Rightarrow> bool" where
  "pair_invariant r \<longleftrightarrow>
     (\<forall>i<168. pair_ok (response_times r ! i) (response_codes r ! i)
                        (operational_statuses r ! i))"

text \<open>A sequence of \<^verbatim>\<open>set_ping_data\<close> calls on one document, whatever each call's outcome.\<close>

type_synonym sample = "datetime \<times> int option \<times> int \<times> bool"

fun set_ping_data_calls :: "ping_latest \<Rightarrow> sample list \<Rightarrow> ping_latest" where
  "set_ping_data_calls r [] = r"
| "set_ping_data_calls r ((dt, response_time, response_code, operational_status) # calls) =
     set_ping_data_calls
       (fst (set_ping_data r dt response_time response_code operational_status)) calls"

fun updated_le :: "datetime option \<Rightarrow> datetime option \<Rightarrow> bool" where
  "updated_le None b = True"
| "updated_le (Some a) None = False"
| "updated_le (Some a) (Some b) = (a \<le> b)"

subsection \<open>Notions used in the proofs\<close>

text \<open>The hour of the week, which is what \<^verbatim>\<open>get_index\<close> computes (lemma \<open>get_index_Some\<close>).\<close>

definition slot_of :: "datetime \<Rightarrow> nat" where
  "slot_of dt = (dt div hour_us) mod 168"


text \<open>What the three arrays hold at one index.\<close>

definition slot :: "ping_latest \<Rightarrow> nat \<Rightarrow> int option \<times> int option \<times> bool option" where
  "slot r i = (response_times r ! i, response_codes r ! i, operational_statuses r ! i)"

text \<open>The document after the three assignments of \<open>set_slot\<close>, when none of them raises.\<close>

definition put_slot ::
  "ping_latest \<Rightarrow> nat \<Rightarrow> int option \<Rightarrow> int option \<Rightarrow> bool option \<Rightarrow> ping_latest" where
  "put_slot r i t c s =
     r\<lparr>response_times := (response_times r)[i := t],
       response_codes := (response_codes r)[i := c],
       operational_statuses := (operational_statuses r)[i := s]\<rparr>"

text \<open>The document after lines 119--124.\<close>

definition set_latest :: "ping_latest \<Rightarrow> datetime \<Rightarrow> int option \<Rightarrow> int \<Rightarrow> bool \<Rightarrow> ping_latest" where
  "set_latest r dt t c s =
     r\<lparr>updated := Some dt, last_response_time := t, last_response_code := Some c,
       last_operational_status := Some s,
       last_good_time := (if s then Some dt else last_good_time r)\<rparr>"

text \<open>Two documents agree on every field but the three arrays.\<close>

definition same_latest :: "ping_latest \<Rightarrow> ping_latest \<Rightarrow> bool" where
  "same_latest r r' \<longleftrightarrow>
     service_id r' = service_id r \<and> last_response_time r' = last_response_time r
       \<and> last_response_code r' = last_response_code r
       \<and> last_operational_status r' = last_operational_status r
       \<and> last_good_time r' = last_good_time r \<and> created r' = created r
       \<and> updated r' = updated r"

text \<open>Every slot of the second document is the first one's, or has been nulled.\<close>

definition nulled_only :: "ping_latest \<Rightarrow> ping_latest \<Rightarrow> bool" where
  "nulled_only r g \<longleftrightarrow> (\<forall>i<168. slot g i = slot r i \<or> slot g i = (None, None, None))"

text \<open>
  Two documents for the examples: a fresh one, and the one of a service that answered
  200 in 120 ms on a Monday at 00:15 (900000000 microseconds into the week).
\<close>

definition fresh_doc :: ping_latest where
  "fresh_doc = new_ping_latest 1 0"

definition monday_doc :: ping_latest where
  "monday_doc =
     \<lparr> service_id = 1,
       last_response_time = Some 120,
       last_response_code = Some 200,
       last_operational_status = Some True,
       last_good_time = Some 900000000,
       response_times = (replicate 168 None)[0 := Some 120],
       response_codes = (replicate 168 None)[0 := Some 200],
       operational_statuses = (replicate 168 None)[0 := Some True],
       created = 0,
       updated = Some 900000000 \<rparr>"



section \<open>Properties of the operations\<close>


subsection \<open>The slot of a timestamp\<close>

declare gap_loop.simps [simp del]


lemma get_index_Some: "get_index (Some t) = Some (slot_of t)"
proof -
  have "t div day_us = (t div hour_us) div 24"
    by (simp add: day_us_def div_mult2_eq mult.commute)
  moreover have "(t div hour_us) mod 168 = 24 * ((t div hour_us) div 24 mod 7) + (t div hour_us) mod 24"
    using mod_mult2_eq [of "t div hour_us" 24 7] by simp
  ultimately show ?thesis
    by (simp add: get_index_def slot_of_def weekday_def hour_def)
qed

lemma slot_of_less: "slot_of t < 168"
  by (simp add: slot_of_def)

subsection \<open>One step of the loop\<close>

lemma set_slot_well_formed:
  "well_formed r \<Longrightarrow> i < 168 \<Longrightarrow> set_slot r (Some i) t c s = (put_slot r i t c s, Return ())"
  by (simp add: set_slot_def list_setitem_def well_formed_def put_slot_def Let_def)

lemma well_formed_put_slot: "well_formed r \<Longrightarrow> well_formed (put_slot r i t c s)"
  by (simp add: well_formed_def put_slot_def)

lemma gap_loop_stop: "\<not> s < dt \<Longrightarrow> gap_loop r s dt n = (r, n, Return ())"
  by (subst gap_loop.simps) simp

lemma gap_loop_step:
  "well_formed r \<Longrightarrow> s < dt \<Longrightarrow> s + hour_us \<le> datetime_max \<Longrightarrow>
     gap_loop r s dt n = gap_loop (put_slot r (slot_of s) None None None) (s + hour_us) dt (Suc n)"
  by (subst gap_loop.simps)
     (simp add: get_index_Some set_slot_well_formed slot_of_less add_hour_def)

lemma gap_loop_overflow:
  "well_formed r \<Longrightarrow> s < dt \<Longrightarrow> \<not> s + hour_us \<le> datetime_max \<Longrightarrow>
     gap_loop r s dt n = (put_slot r (slot_of s) None None None, Suc n, Raise OverflowError)"
  by (subst gap_loop.simps)
     (simp add: get_index_Some set_slot_well_formed slot_of_less add_hour_def)

lemma gap_loop_wf_induct [consumes 1, case_names stop overflow step]:
  assumes wf: "well_formed r"
    and stop: "\<And>r s dt n. well_formed r \<Longrightarrow> \<not> s < dt \<Longrightarrow> P r s dt n"
    and overflow: "\<And>r s dt n. well_formed r \<Longrightarrow> s < dt \<Longrightarrow> \<not> s + hour_us \<le> datetime_max \<Longrightarrow>
        P r s dt n"
    and step: "\<And>r s dt n. well_formed r \<Longrightarrow> s < dt \<Longrightarrow> s + hour_us \<le> datetime_max \<Longrightarrow>
        P (put_slot r (slot_of s) None None None) (s + hour_us) dt (Suc n) \<Longrightarrow> P r s dt n"
  shows "P r s dt n"
  using wf
proof (induction r s dt n rule: gap_loop.induct)
  case (1 r s dt n)
  show ?case
  proof (cases "s < dt")
    case False
    with "1.prems" show ?thesis
      by (rule stop)
  next
    case True
    show ?thesis
    proof (cases "s + hour_us \<le> datetime_max")
      case False
      with "1.prems" True show ?thesis
        by (rule overflow)
    next
      case le: True
      have "P (put_slot r (slot_of s) None None None) (s + hour_us) dt (Suc n)"
        using "1.IH" [of "put_slot r (slot_of s) None None None" "Return ()" "()" "s + hour_us"]
          True le "1.prems"
        by (simp add: get_index_Some set_slot_well_formed slot_of_less add_hour_def
              well_formed_put_slot)
      with "1.prems" True le show ?thesis
        by (rule step)
    qed
  qed
qed


subsection \<open>The fields outside the arrays\<close>

lemma same_latest_refl: "same_latest r r"
  by (simp add: same_latest_def)

lemma same_latest_trans: "same_latest a b \<Longrightarrow> same_latest b c \<Longrightarrow> same_latest a c"
  by (simp add: same_latest_def)

lemma set_slot_same_latest: "same_latest r (fst (set_slot r idx t c s))"
  by (simp add: set_slot_def same_latest_def Let_def split: outcome.splits)

lemma gap_loop_same_latest: "same_latest r (fst (gap_loop r s dt n))"
proof (induction r s dt n rule: gap_loop.induct)
  case (1 r s dt n)
  show ?case
  proof (cases "s < dt")
    case False
    then show ?thesis
      by (simp add: gap_loop_stop same_latest_refl)
  next
    case True
    obtain r1 out where sl: "set_slot r (get_index (Some s)) None None None = (r1, out)"
      by (cases "set_slot r (get_index (Some s)) None None None")
    have r1: "same_latest r r1"
      using set_slot_same_latest [of r "get_index (Some s)" None None None] sl by simp
    show ?thesis
    proof (cases out)
      case (Raise e)
      with True sl r1 show ?thesis
        by (subst gap_loop.simps) simp
    next
      case (Return u)
      show ?thesis
      proof (cases "add_hour s")
        case (Raise e)
        with True sl r1 Return show ?thesis
          by (subst gap_loop.simps) simp
      next
        case next_dt: (Return s')
        have "same_latest r1 (fst (gap_loop r1 s' dt (Suc n)))"
          using "1.IH" [OF True sl [symmetric] Return next_dt] .
        with r1 have "same_latest r (fst (gap_loop r1 s' dt (Suc n)))"
          by (rule same_latest_trans)
        with True sl Return next_dt show ?thesis
          by (subst gap_loop.simps) simp
      qed
    qed
  qed
qed

lemma record_sample_latest:
  "same_latest (set_latest r dt t c s) (fst (record_sample r dt t c s))"
proof -
  have "same_latest (set_latest r dt t c s)
          (fst (set_slot (set_latest r dt t c s) (get_index (Some dt)) t (Some c) (Some s)))"
    by (rule set_slot_same_latest)
  moreover have "fst (record_sample r dt t c s) =
      fst (set_slot (set_latest r dt t c s) (get_index (Some dt)) t (Some c) (Some s))"
    by (auto simp: record_sample_def set_latest_def Let_def split: prod.splits outcome.splits)
  ultimately show ?thesis by simp
qed

lemma record_sample_well_formed:
  "well_formed r \<Longrightarrow>
     record_sample r dt t c s =
       (put_slot (set_latest r dt t c s) (slot_of dt) t (Some c) (Some s),
        Return (Some (slot_of dt)))"
proof -
  assume "well_formed r"
  then have "well_formed (set_latest r dt t c s)"
    by (simp add: well_formed_def set_latest_def)
  then have "set_slot (set_latest r dt t c s) (Some (slot_of dt)) t (Some c) (Some s) =
      (put_slot (set_latest r dt t c s) (slot_of dt) t (Some c) (Some s), Return ())"
    by (rule set_slot_well_formed) (rule slot_of_less)
  then show ?thesis
    by (auto simp: record_sample_def set_latest_def Let_def get_index_Some)
qed

lemma set_ping_data_run_stale:
  "updated r = Some u \<Longrightarrow> dt < u \<Longrightarrow> set_ping_data_run r dt t c s = (r, 0, Return None)"
  by (simp add: set_ping_data_run_def)

lemma set_ping_data_run_first:
  "updated r = None \<Longrightarrow> well_formed r \<Longrightarrow>
     set_ping_data_run r dt t c s =
       (put_slot (set_latest r dt t c s) (slot_of dt) t (Some c) (Some s), 0,
        Return (Some (slot_of dt)))"
  by (simp add: set_ping_data_run_def record_sample_well_formed)

subsection \<open>The loop on a document with 168 entries\<close>

lemma gap_loop_well_formed: "well_formed r \<Longrightarrow> well_formed (fst (gap_loop r s dt n))"
proof (induction r s dt n rule: gap_loop_wf_induct)
  case (stop r s dt n)
  then show ?case by (simp add: gap_loop_stop)
next
  case (overflow r s dt n)
  then show ?case by (simp add: gap_loop_overflow well_formed_put_slot)
next
  case (step r s dt n)
  then show ?case by (simp add: gap_loop_step)
qed

lemma gap_loop_returns:
  "well_formed r \<Longrightarrow> dt + hour_us \<le> datetime_max \<Longrightarrow> snd (snd (gap_loop r s dt n)) = Return ()"
proof (induction r s dt n rule: gap_loop_wf_induct)
  case (stop r s dt n)
  then show ?case by (simp add: gap_loop_stop)
next
  case (overflow r s dt n)
  then show ?case by simp
next
  case (step r s dt n)
  then show ?case by (simp add: gap_loop_step)
qed

lemma gap_loop_outcome:
  "well_formed r \<Longrightarrow>
     snd (snd (gap_loop r s dt n)) = Return () \<or> snd (snd (gap_loop r s dt n)) = Raise OverflowError"
proof (induction r s dt n rule: gap_loop_wf_induct)
  case (stop r s dt n)
  then show ?case by (simp add: gap_loop_stop)
next
  case (overflow r s dt n)
  then show ?case by (simp add: gap_loop_overflow)
next
  case (step r s dt n)
  then show ?case by (simp add: gap_loop_step)
qed



subsection \<open>Slots\<close>

lemma slot_put_slot:
  "well_formed r \<Longrightarrow> i < 168 \<Longrightarrow> k < 168 \<Longrightarrow>
     slot (put_slot r k t c s) i = (if i = k then (t, c, s) else slot r i)"
  by (simp add: slot_def put_slot_def well_formed_def)

lemma slot_set_latest: "slot (set_latest r dt t c s) i = slot r i"
  by (simp add: slot_def set_latest_def)

lemma well_formed_set_latest: "well_formed (set_latest r dt t c s) = well_formed r"
  by (simp add: well_formed_def set_latest_def)

lemma nulled_only_refl: "nulled_only r r"
  by (simp add: nulled_only_def)

lemma nulled_only_trans: "nulled_only a b \<Longrightarrow> nulled_only b c \<Longrightarrow> nulled_only a c"
  unfolding nulled_only_def by metis

lemma nulled_only_put_slot:
  "well_formed r \<Longrightarrow> k < 168 \<Longrightarrow> nulled_only r (put_slot r k None None None)"
  by (simp add: nulled_only_def slot_put_slot)

lemma gap_loop_nulled_only: "well_formed r \<Longrightarrow> nulled_only r (fst (gap_loop r s dt n))"
proof (induction r s dt n rule: gap_loop_wf_induct)
  case (stop r s dt n)
  then show ?case by (simp add: gap_loop_stop nulled_only_refl)
next
  case (overflow r s dt n)
  then show ?case by (simp add: gap_loop_overflow nulled_only_put_slot slot_of_less)
next
  case (step r s dt n)
  have "nulled_only r (put_slot r (slot_of s) None None None)"
    using step.hyps(1) by (simp add: nulled_only_put_slot slot_of_less)
  with step show ?case
    by (auto simp: gap_loop_step intro: nulled_only_trans)
qed

subsection \<open>The outcomes of set\_ping\_data\<close>

lemma set_ping_data_outcomes [consumes 1, case_names stale overflow recorded]:
  assumes wf: "well_formed r"
  obtains
    (stale) u where "updated r = Some u" and "dt < u"
      and "set_ping_data r dt t c s = (r, Return None)"
  | (overflow) g where "well_formed g" and "same_latest r g" and "nulled_only r g"
      and "set_ping_data r dt t c s = (g, Raise OverflowError)"
      and "\<not> dt + hour_us \<le> datetime_max"
  | (recorded) g where "well_formed g" and "same_latest r g" and "nulled_only r g"
      and "set_ping_data r dt t c s =
             (put_slot (set_latest g dt t c s) (slot_of dt) t (Some c) (Some s),
              Return (Some (slot_of dt)))"
      and "\<forall>u. updated r = Some u \<longrightarrow> u \<le> dt"
proof (cases "updated r")
  case None
  have "set_ping_data r dt t c s =
      (put_slot (set_latest r dt t c s) (slot_of dt) t (Some c) (Some s), Return (Some (slot_of dt)))"
    using None wf by (simp add: set_ping_data_def set_ping_data_run_first)
  with wf None show ?thesis
    by (intro recorded [of r]) (simp_all add: same_latest_refl nulled_only_refl)
next
  case (Some u)
  show ?thesis
  proof (cases "dt < u")
    case True
    with Some show ?thesis
      by (intro stale [of u]) (simp_all add: set_ping_data_def set_ping_data_run_stale)
  next
    case False
    show ?thesis
    proof (cases "u + hour_us \<le> datetime_max")
      case over: False
      with Some False have "set_ping_data r dt t c s = (r, Raise OverflowError)"
        by (simp add: set_ping_data_def set_ping_data_run_def add_hour_def)
      moreover from over False have "\<not> dt + hour_us \<le> datetime_max"
        by simp
      ultimately show ?thesis
        using wf by (intro overflow [of r]) (simp_all add: same_latest_refl nulled_only_refl)
    next
      case True
      obtain g n out where g: "gap_loop r (u + hour_us) dt 0 = (g, n, out)"
        by (cases "gap_loop r (u + hour_us) dt 0")
      have wfg: "well_formed g" and slg: "same_latest r g" and nog: "nulled_only r g"
        using gap_loop_well_formed [OF wf, of "u + hour_us" dt 0]
          gap_loop_same_latest [of r "u + hour_us" dt 0]
          gap_loop_nulled_only [OF wf, of "u + hour_us" dt 0] g
        by simp_all
      from gap_loop_outcome [OF wf, of "u + hour_us" dt 0] g
      consider "out = Return ()" | "out = Raise OverflowError"
        by auto
      then show ?thesis
      proof cases
        case 1
        with Some False True g wfg have "set_ping_data r dt t c s =
            (put_slot (set_latest g dt t c s) (slot_of dt) t (Some c) (Some s),
             Return (Some (slot_of dt)))"
          by (simp add: set_ping_data_def set_ping_data_run_def add_hour_def
                record_sample_well_formed)
        with wfg slg nog Some False show ?thesis
          by (intro recorded [of g]) simp_all
      next
        case 2
        with Some False True g have "set_ping_data r dt t c s = (g, Raise OverflowError)"
          by (simp add: set_ping_data_def set_ping_data_run_def add_hour_def)
        moreover have "\<not> dt + hour_us \<le> datetime_max"
          using gap_loop_returns [OF wf, of dt "u + hour_us" 0] g 2 by auto
        ultimately show ?thesis
          using wfg slg nog by (intro overflow [of g]) simp_all
      qed
    qed
  qed
qed


subsection \<open>The field updated never decreases\<close>

lemma set_ping_data_updated_le:
  "updated_le (updated r) (updated (fst (set_ping_data r dt t c s)))"
proof (cases "updated r")
  case None
  then show ?thesis by simp
next
  case (Some u)
  show ?thesis
  proof (cases "dt < u")
    case True
    with Some show ?thesis
      by (simp add: set_ping_data_def set_ping_data_run_stale)
  next
    case False
    show ?thesis
    proof (cases "add_hour u")
      case (Raise e)
      with Some False show ?thesis
        by (simp add: set_ping_data_def set_ping_data_run_def)
    next
      case (Return first_dt)
      obtain g n out where g: "gap_loop r first_dt dt 0 = (g, n, out)"
        by (cases "gap_loop r first_dt dt 0")
      have slg: "updated g = Some u"
        using gap_loop_same_latest [of r first_dt dt 0] g Some by (simp add: same_latest_def)
      show ?thesis
      proof (cases out)
        case (Raise e)
        with Some False Return g slg show ?thesis
          by (simp add: set_ping_data_def set_ping_data_run_def)
      next
        case ret: (Return x)
        have "updated (fst (record_sample g dt t c s)) = Some dt"
          using record_sample_latest [of g dt t c s]
          by (simp add: same_latest_def set_latest_def)
        with Some False Return g ret show ?thesis
          by (auto simp: set_ping_data_def set_ping_data_run_def split: prod.splits)
      qed
    qed
  qed
qed

lemma updated_le_trans: "updated_le a b \<Longrightarrow> updated_le b c \<Longrightarrow> updated_le a c"
  by (cases a; cases b; cases c) simp_all

lemma set_ping_data_calls_updated_le:
  "updated_le (updated r) (updated (set_ping_data_calls r calls))"
proof (induction calls arbitrary: r)
  case Nil
  show ?case by (cases "updated r") simp_all
next
  case (Cons call calls)
  obtain dt t c s where call: "call = (dt, t, c, s)"
    by (cases call)
  show ?case
    unfolding call set_ping_data_calls.simps
    by (rule updated_le_trans [OF set_ping_data_updated_le Cons.IH])
qed

subsection \<open>When ping\_service returns\<close>



lemma set_ping_data_recorded:
  assumes "well_formed r" and "dt + hour_us \<le> datetime_max"
    and "\<forall>u. updated r = Some u \<longrightarrow> u \<le> dt"
  shows "\<exists>g. well_formed g \<and> same_latest r g \<and> nulled_only r g
           \<and> set_ping_data r dt t c s =
               (put_slot (set_latest g dt t c s) (slot_of dt) t (Some c) (Some s),
                Return (Some (slot_of dt)))"
  using assms(1)
proof (cases rule: set_ping_data_outcomes [where dt = dt and t = t and c = c and s = s])
  case (stale u)
  with assms(3) show ?thesis by auto
next
  case (overflow g)
  with assms(2) show ?thesis by simp
next
  case (recorded g)
  then show ?thesis by blast
qed

subsection \<open>The invariants on slots\<close>

lemma triple_invariant_slot:
  "triple_invariant r \<longleftrightarrow> (\<forall>i<168. case slot r i of (a, b, c) \<Rightarrow> triple_ok a b c)"
  by (simp add: triple_invariant_def slot_def)

lemma pair_invariant_slot:
  "pair_invariant r \<longleftrightarrow> (\<forall>i<168. case slot r i of (a, b, c) \<Rightarrow> pair_ok a b c)"
  by (simp add: pair_invariant_def slot_def)

lemma nulled_only_triple: "nulled_only r g \<Longrightarrow> triple_invariant r \<Longrightarrow> triple_invariant g"
  unfolding triple_invariant_slot nulled_only_def
  by (fastforce simp: triple_ok_def)

lemma nulled_only_pair: "nulled_only r g \<Longrightarrow> pair_invariant r \<Longrightarrow> pair_invariant g"
  unfolding pair_invariant_slot nulled_only_def
  by (fastforce simp: pair_ok_def)

lemma put_sample_triple:
  "well_formed g \<Longrightarrow> k < 168 \<Longrightarrow> triple_invariant g \<Longrightarrow> t \<noteq> None \<Longrightarrow>
     triple_invariant (put_slot (set_latest g dt t c s) k t (Some c) (Some s))"
  by (simp add: triple_invariant_slot slot_put_slot slot_set_latest well_formed_set_latest
        triple_ok_def)

lemma put_sample_pair:
  "well_formed g \<Longrightarrow> k < 168 \<Longrightarrow> pair_invariant g \<Longrightarrow>
     pair_invariant (put_slot (set_latest g dt t c s) k t (Some c) (Some s))"
  by (simp add: pair_invariant_slot slot_put_slot slot_set_latest well_formed_set_latest
        pair_ok_def)

lemma triple_imp_pair: "triple_invariant r \<Longrightarrow> pair_invariant r"
  by (auto simp: triple_invariant_def pair_invariant_def triple_ok_def pair_ok_def)

subsection \<open>The example documents\<close>

lemma fresh_doc_well_formed: "well_formed fresh_doc"
  by (simp add: fresh_doc_def new_ping_latest_def well_formed_def)

lemma monday_doc_well_formed: "well_formed monday_doc"
  by (simp add: monday_doc_def well_formed_def)

lemma slot_of_monday: "slot_of 900000000 = 0"
  by (simp add: slot_of_def hour_us_def)

lemma fresh_doc_updated: "updated fresh_doc = None"
  by (simp add: fresh_doc_def new_ping_latest_def)


subsection \<open>The exceptions of set\_ping\_data\<close>





subsection \<open>Classification of the probe\<close>

lemma probe_sample_Returned:
  "probe_sample (Returned t c) = Return (Some t, c, c = 200 \<or> c = 400)"
  by (simp add: probe_sample_def)



lemma ping_service_recorded:
  assumes "probe_sample probe = Return (t, c, op)"
    and "well_formed r" and "now + hour_us \<le> datetime_max"
    and "\<forall>u. updated r = Some u \<longrightarrow> u \<le> now"
  shows "\<exists>g. well_formed g \<and> same_latest r g \<and> nulled_only r g
           \<and> ping_service r True now probe =
               (put_slot (set_latest g now t c op) (slot_of now) t (Some c) (Some op),
                Return (get_index (updated r) \<noteq> Some (slot_of now),
                        py_and (last_operational_status r)
                          (Some (last_operational_status r \<noteq> Some op))))"
proof -
  from set_ping_data_recorded [OF assms(2-4), of t c op]
  obtain g where g: "well_formed g" "same_latest r g" "nulled_only r g"
    "set_ping_data r now t c op =
       (put_slot (set_latest g now t c op) (slot_of now) t (Some c) (Some op),
        Return (Some (slot_of now)))"
    by blast
  from g(4) assms(1) have "ping_service r True now probe =
      (put_slot (set_latest g now t c op) (slot_of now) t (Some c) (Some op),
       Return (get_index (updated r) \<noteq> Some (slot_of now),
               py_and (last_operational_status r)
                 (Some (last_operational_status r \<noteq> Some op))))"
    by (simp add: ping_service_def Let_def)
  with g(1-3) show ?thesis by blast
qed

lemma latest_put_slot:
  "last_response_time (put_slot (set_latest g dt t c s) k a b d) = t"
  "last_response_code (put_slot (set_latest g dt t c s) k a b d) = Some c"
  "last_operational_status (put_slot (set_latest g dt t c s) k a b d) = Some s"
  "updated (put_slot (set_latest g dt t c s) k a b d) = Some dt"
  "last_good_time (put_slot (set_latest g dt t c s) k a b d) =
     (if s then Some dt else last_good_time g)"
  by (simp_all add: put_slot_def set_latest_def)

subsection \<open>The last good time and the number of iterations\<close>




subsection \<open>Three hours later in the same week\<close>









subsection \<open>Slices and rotation\<close>

lemma drop_as_map_nth: "drop k xs = map ((!) xs) [k..<length xs]"
proof -
  have "drop k xs = drop k (map ((!) xs) [0..<length xs])"
    by (simp add: map_nth)
  also have "\<dots> = map ((!) xs) [k..<length xs]"
    by (simp add: drop_map)
  finally show ?thesis .
qed

lemma take_as_map_nth: "k \<le> length xs \<Longrightarrow> take k xs = map ((!) xs) [0..<k]"
proof -
  assume k: "k \<le> length xs"
  have "take k xs = take k (map ((!) xs) [0..<length xs])"
    by (simp add: map_nth)
  also have "\<dots> = map ((!) xs) [0..<k]"
    using k by (simp add: take_map)
  finally show ?thesis .
qed

lemma rotated_slices:
  assumes "length xs = 168" and "k \<le> 168"
  shows "py_slice xs k 168 @ py_slice xs 0 k = rotate k xs"
    and "py_slice xs k 168 @ py_slice xs 0 k = map ((!) xs) [k..<168] @ map ((!) xs) [0..<k]"
proof -
  have slices: "py_slice xs k 168 @ py_slice xs 0 k = drop k xs @ take k xs"
    using assms by (simp add: py_slice_def min_def)
  show "py_slice xs k 168 @ py_slice xs 0 k = rotate k xs"
  proof (cases "k = 168")
    case True
    with assms slices show ?thesis by simp
  next
    case False
    with assms have "k mod length xs = k" by simp
    with slices show ?thesis
      by (simp add: rotate_drop_take)
  qed
  show "py_slice xs k 168 @ py_slice xs 0 k = map ((!) xs) [k..<168] @ map ((!) xs) [0..<k]"
    using slices drop_as_map_nth [of k xs] take_as_map_nth [of k xs] assms by simp
qed


section \<open>The claims\<close>

subsection \<open>Gap filling\<close>







subsection \<open>Stale samples\<close>

text \<open>
  Claim C2. When \<open>updated\<close> is set and \<open>dt\<close> is earlier, \<open>set_ping_data\<close> returns the
  document as it was, every field and every array element included, and returns
  \<^verbatim>\<open>None\<close> rather than a slot index. Over any sequence of \<open>set_ping_data\<close> calls on a
  document, \<open>updated\<close> never decreases, whatever the calls' outcomes.
\<close>

theorem stale_sample_dropped:
  "(updated r = Some u \<and> dt < u \<longrightarrow> set_ping_data r dt t c s = (r, Return None))
     \<and> updated_le (updated r) (updated (set_ping_data_calls r calls))"
  by (simp add: set_ping_data_def set_ping_data_run_stale set_ping_data_calls_updated_le)

theorem stale_sample_dropped_witness:
  "updated monday_doc = Some 900000000 \<and> (60000000 :: nat) < 900000000
     \<and> set_ping_data monday_doc 60000000 (Some 95) 200 True = (monday_doc, Return None)
     \<and> updated_le (updated monday_doc)
          (updated (set_ping_data_calls monday_doc
             [(60000000, Some 95, 200, True), (4500000000, None, - 1, False)]))"
proof -
  have u: "updated monday_doc = Some 900000000" and l: "(60000000 :: nat) < 900000000"
    by (simp_all add: monday_doc_def)
  note inst = stale_sample_dropped [of monday_doc 900000000 60000000 "Some 95" 200 True
      "[(60000000, Some 95, 200, True), (4500000000, None, - 1, False)]"]
  from inst u l
  have dropped: "set_ping_data monday_doc 60000000 (Some 95) 200 True = (monday_doc, Return None)"
    by blast
  from inst u l dropped show ?thesis
    by blast
qed



subsection \<open>Invariants of the document\<close>

text \<open>
  Claim C3. For a document with its 168 entries, a call of \<open>set_ping_data\<close> whose
  response time is present keeps the triple invariant. A call whose response time is
  absent (the sample of a failed probe) writes an absent response time next to a present
  code and status; what every call keeps is the weaker invariant that code and status
  are absent together and that a response time is present only with them.
\<close>

theorem triple_invariant_preserved:
  assumes "well_formed r"
  shows "(triple_invariant r \<and> t \<noteq> None \<longrightarrow>
            triple_invariant (fst (set_ping_data r dt t c s)))
       \<and> (triple_invariant r \<longrightarrow> pair_invariant (fst (set_ping_data r dt t c s)))
       \<and> (pair_invariant r \<longrightarrow> pair_invariant (fst (set_ping_data r dt t c s)))
       \<and> well_formed (fst (set_ping_data r dt t c s))"
  using assms
proof (cases rule: set_ping_data_outcomes [where dt = dt and t = t and c = c and s = s])
  case (stale u)
  with assms show ?thesis
    by (simp add: triple_imp_pair)
next
  case (overflow g)
  then show ?thesis
    by (auto dest: nulled_only_triple nulled_only_pair triple_imp_pair)
next
  case (recorded g)
  then show ?thesis
    by (auto simp: slot_of_less well_formed_put_slot well_formed_set_latest
          dest: nulled_only_triple nulled_only_pair triple_imp_pair
          intro!: put_sample_triple put_sample_pair)
qed

theorem triple_invariant_preserved_witness:
  "well_formed monday_doc \<and> triple_invariant monday_doc
     \<and> triple_invariant (fst (set_ping_data monday_doc 12000000000 (Some 85) 500 False))
     \<and> pair_invariant (fst (set_ping_data monday_doc 12000000000 None (- 1) False))"
proof -
  have inv: "triple_invariant monday_doc"
    by (auto simp: triple_invariant_def monday_doc_def triple_ok_def nth_list_update)
  from triple_invariant_preserved [OF monday_doc_well_formed, of "Some 85" 12000000000 500 False]
    triple_invariant_preserved [OF monday_doc_well_formed, of None 12000000000 "- 1" False]
    inv monday_doc_well_formed
  show ?thesis by simp
qed

text \<open>
  Claim C3, as stated, refuted. The sample of a failed probe, recorded into a fresh
  document, breaks the triple invariant at slot 0.
\<close>

theorem triple_invariant_counterexample:
  "triple_invariant fresh_doc
     \<and> slot (fst (set_ping_data fresh_doc 900000000 None (- 1) False)) 0 =
         (None, Some (- 1), Some False)
     \<and> \<not> triple_invariant (fst (set_ping_data fresh_doc 900000000 None (- 1) False))"
proof -
  have inv: "triple_invariant fresh_doc"
    by (simp add: triple_invariant_def fresh_doc_def new_ping_latest_def triple_ok_def)
  have run: "fst (set_ping_data fresh_doc 900000000 None (- 1) False) =
      put_slot (set_latest fresh_doc 900000000 None (- 1) False) 0 None (Some (- 1)) (Some False)"
    by (simp add: set_ping_data_def slot_of_monday
          set_ping_data_run_first [OF fresh_doc_updated fresh_doc_well_formed])
  have s0: "slot (fst (set_ping_data fresh_doc 900000000 None (- 1) False)) 0 =
      (None, Some (- 1), Some False)"
    unfolding run using fresh_doc_well_formed
    by (simp add: slot_put_slot well_formed_set_latest)
  then have "\<not> triple_invariant (fst (set_ping_data fresh_doc 900000000 None (- 1) False))"
    unfolding triple_invariant_slot by (auto simp: triple_ok_def intro!: exI [of _ 0])
  with inv s0 show ?thesis by blast
qed




subsection \<open>The ping cycle\<close>




text \<open>
  Claim C6. A probe that returns is classified operational exactly when its response code
  is 200 or 400, and that is the \<open>last_operational_status\<close> the document holds once the
  sample is recorded.
\<close>

theorem classification_rule:
  "probe_sample (Returned t c) = Return (Some t, c, c = 200 \<or> c = 400)
     \<and> (well_formed r \<and> now + hour_us \<le> datetime_max \<and> (\<forall>u. updated r = Some u \<longrightarrow> u \<le> now)
          \<longrightarrow> last_operational_status (fst (ping_service r True now (Returned t c))) =
                Some (c = 200 \<or> c = 400)
              \<and> last_response_code (fst (ping_service r True now (Returned t c))) = Some c)"
proof -
  have "last_operational_status (fst (ping_service r True now (Returned t c))) =
          Some (c = 200 \<or> c = 400)
        \<and> last_response_code (fst (ping_service r True now (Returned t c))) = Some c"
    if "well_formed r" "now + hour_us \<le> datetime_max" "\<forall>u. updated r = Some u \<longrightarrow> u \<le> now"
    using ping_service_recorded [OF probe_sample_Returned [of t c] that]
    by (auto simp: latest_put_slot)
  then show ?thesis
    by (simp add: probe_sample_Returned)
qed

theorem classification_rule_witness:
  "probe_sample (Returned 85 404) = Return (Some 85, 404, False)
     \<and> well_formed monday_doc \<and> 12000000000 + hour_us \<le> datetime_max
     \<and> last_operational_status (fst (ping_service monday_doc True 12000000000 (Returned 85 404))) =
         Some False
     \<and> last_response_code (fst (ping_service monday_doc True 12000000000 (Returned 85 404))) =
         Some 404"
proof -
  have le: "12000000000 + hour_us \<le> datetime_max"
    by (simp add: hour_us_def datetime_max_def day_us_def)
  have u: "\<forall>u. updated monday_doc = Some u \<longrightarrow> u \<le> 12000000000"
    by (simp add: monday_doc_def)
  from classification_rule [of 85 404 monday_doc 12000000000] monday_doc_well_formed le u
  show ?thesis by simp
qed




subsection \<open>The chronological view\<close>

text \<open>
  Claim C5. With \<open>idx\<close> the slot of \<open>now\<close> and arrays of 168 entries,
  \<open>get_current_data\<close> returns both arrays unrotated when \<open>idx = 167\<close>, and otherwise, for
  each array, the elements \<open>idx + 1\<close> to 167 followed by the elements 0 to \<open>idx\<close>. In
  both cases that is each array rotated to the left by \<open>idx + 1\<close>, the same amount for
  both.
\<close>

theorem chronological_rotation:
  assumes "well_formed r" and "get_index (Some now) = Some idx"
  shows "idx < 168
     \<and> get_current_data r now =
         Return (rotate (idx + 1) (response_times r), rotate (idx + 1) (operational_statuses r))
     \<and> (idx = 167 \<longrightarrow>
           get_current_data r now = Return (response_times r, operational_statuses r))
     \<and> (idx \<noteq> 167 \<longrightarrow>
           get_current_data r now =
             Return (map ((!) (response_times r)) [idx + 1..<168]
                       @ map ((!) (response_times r)) [0..<idx + 1],
                     map ((!) (operational_statuses r)) [idx + 1..<168]
                       @ map ((!) (operational_statuses r)) [0..<idx + 1]))"
proof -
  have idx: "idx < 168"
    using assms(2) slot_of_less [of now] by (simp add: get_index_Some)
  have len: "length (response_times r) = 168" "length (operational_statuses r) = 168"
    using assms(1) by (simp_all add: well_formed_def)
  show ?thesis
  proof (cases "idx = 167")
    case True
    with assms(2) len show ?thesis
      by (simp add: get_current_data_def)
  next
    case False
    with idx have k: "idx + 1 \<le> 168" by simp
    from False assms(2) have "get_current_data r now =
        Return (py_slice (response_times r) (idx + 1) 168 @ py_slice (response_times r) 0 (idx + 1),
                py_slice (operational_statuses r) (idx + 1) 168
                  @ py_slice (operational_statuses r) 0 (idx + 1))"
      by (simp add: get_current_data_def Let_def)
    with False idx rotated_slices [OF len(1) k] rotated_slices [OF len(2) k] show ?thesis
      by simp
  qed
qed

theorem chronological_rotation_witness:
  "well_formed monday_doc \<and> get_index (Some 12000000000) = Some 3
     \<and> get_current_data monday_doc 12000000000 =
         Return (rotate 4 (response_times monday_doc), rotate 4 (operational_statuses monday_doc))
     \<and> rotate 4 (response_times monday_doc) ! 164 = Some 120"
proof -
  have idx: "get_index (Some 12000000000) = Some 3"
    by (simp add: get_index_Some slot_of_def hour_us_def)
  have len: "length (response_times monday_doc) = 168"
    using monday_doc_well_formed by (simp add: well_formed_def)
  have "rotate 4 (response_times monday_doc) ! 164 = response_times monday_doc ! 0"
    using len by (simp add: nth_rotate)
  also have "\<dots> = Some 120"
    by (simp add: monday_doc_def)
  finally have elem: "rotate 4 (response_times monday_doc) ! 164 = Some 120" .
  from chronological_rotation [OF monday_doc_well_formed idx] idx elem monday_doc_well_formed
  show ?thesis by simp
qed

end
